theory Spec2Isabelle
  imports Main "HOL-Library.AList"
begin

section \<open>Python values and exceptions\<close>

text \<open>
  The values that reach the host-parameterisation code of \<^verbatim>\<open>fabric\<close>. A function
  object carries an identity and its attribute dictionary (\<^verbatim>\<open>__dict__\<close>); \<open>PExt\<close> is an
  object of a library outside the repository (an Invoke task, a connection), whose
  behaviour is never assumed: every operation on it is a parameter of the model.
\<close>

datatype 'x pyval =
    PNone
  | PBool bool
  | PInt int
  | PStr string
  | PList "'x pyval list"
  | PTuple "'x pyval list"
  | PDict "(string \<times> 'x pyval) list"
  | PFunc nat "(string \<times> 'x pyval) list"
  | PExt 'x

text \<open>
  The exceptions of \<^verbatim>\<open>fabric/exceptions.py\<close> and the built-in ones that the modelled
  code can raise, each with its message or the name it is about.
\<close>

datatype error =
    ValueError string
  | KeyError string
  | NameError string
  | TypeError string
  | AttributeError string
  | NothingToDo string
  | GroupException
  | InvalidV1Env

type_synonym 'x kwargs = "(string \<times> 'x pyval) list"

fun is_str :: "'x pyval \<Rightarrow> bool" where
  "is_str (PStr s) = True"
| "is_str _ = False"

fun is_dict :: "'x pyval \<Rightarrow> bool" where
  "is_dict (PDict d) = True"
| "is_dict _ = False"

text \<open>Truth value testing of Python (\<^verbatim>\<open>if hosts:\<close>); objects without \<^verbatim>\<open>__bool__\<close> are true.\<close>

fun truthy :: "'x pyval \<Rightarrow> bool" where
  "truthy PNone = False"
| "truthy (PBool b) = b"
| "truthy (PInt i) = (i \<noteq> 0)"
| "truthy (PStr s) = (s \<noteq> [])"
| "truthy (PList xs) = (xs \<noteq> [])"
| "truthy (PTuple xs) = (xs \<noteq> [])"
| "truthy (PDict d) = (d \<noteq> [])"
| "truthy (PFunc i a) = True"
| "truthy (PExt x) = True"

section \<open>Executor.normalize_hosts\<close>

text \<open>
  \<^verbatim>\<open>
  normalized = []
  for host in hosts:
      if isinstance(host, str):
          normalized.append({"host": host})
      elif isinstance(host, dict):
          normalized.append(host)
      else:
          raise ValueError(f"Invalid host specification: {host}")
  return normalized
  \<close>
  The loop is a recursion over the remaining elements with the list \<^verbatim>\<open>normalized\<close> as
  accumulator. The first parameter is Python's built-in formatting of a value inside an
  f-string (\<^verbatim>\<open>format(host, "")\<close>), which is not code of the repository.
\<close>

fun normalize_loop ::
  "('x pyval \<Rightarrow> string) \<Rightarrow> 'x pyval list \<Rightarrow> 'x pyval list \<Rightarrow> error + 'x pyval list" where
  "normalize_loop fmt normalized [] = Inr normalized"
| "normalize_loop fmt normalized (host # hosts) =
     (if is_str host then
        normalize_loop fmt (normalized @ [PDict [(''host'', host)]]) hosts
      else if is_dict host then
        normalize_loop fmt (normalized @ [host]) hosts
      else Inl (ValueError (''Invalid host specification: '' @ fmt host)))"

definition normalize_hosts ::
  "('x pyval \<Rightarrow> string) \<Rightarrow> 'x pyval list \<Rightarrow> error + 'x pyval list" where
  "normalize_hosts fmt hosts = normalize_loop fmt [] hosts"

text \<open>What the specification says one element becomes.\<close>

fun host_record :: "'x pyval \<Rightarrow> 'x pyval" where
  "host_record (PStr s) = PDict [(''host'', PStr s)]"
| "host_record h = h"

definition host_spec :: "'x pyval \<Rightarrow> bool" where
  "host_spec h = (is_str h \<or> is_dict h)"

lemma host_record_str: "is_str h \<Longrightarrow> host_record h = PDict [(''host'', h)]"
  by (cases h) simp_all

lemma host_record_dict: "is_dict h \<Longrightarrow> host_record h = h"
  by (cases h) simp_all

lemma normalize_loop_ok:
  "list_all host_spec hosts \<Longrightarrow>
   normalize_loop fmt acc hosts = Inr (acc @ map host_record hosts)"
proof (induction hosts arbitrary: acc)
  case Nil
  show ?case by simp
next
  case (Cons h hs)
  from Cons.prems have h: "host_spec h" and hs: "list_all host_spec hs" by simp_all
  show ?case
  proof (cases "is_str h")
    case True
    then show ?thesis using Cons.IH [OF hs] by (simp add: host_record_str)
  next
    case False
    with h have "is_dict h" by (simp add: host_spec_def)
    with False show ?thesis using Cons.IH [OF hs] by (simp add: host_record_dict)
  qed
qed

lemma normalize_loop_bad:
  "list_all host_spec pre \<Longrightarrow> \<not> host_spec bad \<Longrightarrow>
   normalize_loop fmt acc (pre @ bad # rest) =
     Inl (ValueError (''Invalid host specification: '' @ fmt bad))"
proof (induction pre arbitrary: acc)
  case Nil
  then show ?case by (simp add: host_spec_def)
next
  case (Cons h hs)
  from Cons.prems have hs: "list_all host_spec hs" and h: "host_spec h" by simp_all
  from h show ?case using Cons.IH [OF hs Cons.prems(2)]
    by (auto simp: host_spec_def)
qed

text \<open>
  Claim C1. For every host-specifier list whose elements are each a string or a
  mapping, \<^verbatim>\<open>normalize_hosts\<close> returns a list of the same length; the element at each
  position is \<^verbatim>\<open>{"host": s}\<close> where the input has the string \<^verbatim>\<open>s\<close> and is the input's
  element itself where that is a mapping. So the order is the input's, and equal
  specifiers give equal records at their own positions: nothing is deduplicated.
\<close>

theorem normalize_hosts_records:
  assumes "\<forall>h \<in> set hosts. is_str h \<or> is_dict h"
  shows "\<exists>out. normalize_hosts fmt hosts = Inr out
           \<and> length out = length hosts
           \<and> (\<forall>i < length hosts.
                 (\<forall>s. hosts ! i = PStr s \<longrightarrow> out ! i = PDict [(''host'', PStr s)])
               \<and> (is_dict (hosts ! i) \<longrightarrow> out ! i = hosts ! i))"
proof -
  from assms have "list_all host_spec hosts"
    by (simp add: list_all_iff host_spec_def)
  then have "normalize_hosts fmt hosts = Inr (map host_record hosts)"
    using normalize_loop_ok [of hosts fmt "[]"] by (simp add: normalize_hosts_def)
  then show ?thesis by (auto simp: host_record_dict)
qed

theorem normalize_hosts_records_witness:
  "normalize_hosts (\<lambda>h. ''?'')
     [PStr ''web1'', PDict [(''host'', PStr ''db''), (''port'', PInt 2222)], PStr ''web1'' :: unit pyval]
   = Inr [PDict [(''host'', PStr ''web1'')],
          PDict [(''host'', PStr ''db''), (''port'', PInt 2222)],
          PDict [(''host'', PStr ''web1'')]]"
proof -
  let ?hosts = "[PStr ''web1'', PDict [(''host'', PStr ''db''), (''port'', PInt 2222)],
                 PStr ''web1'' :: unit pyval]"
  have ok: "\<forall>h \<in> set ?hosts. is_str h \<or> is_dict h" by simp
  from normalize_hosts_records [OF ok, of "\<lambda>h. ''?''"]
  obtain out where r: "normalize_hosts (\<lambda>h. ''?'') ?hosts = Inr out"
    and len: "length out = 3"
    and el: "\<forall>i < 3. (\<forall>s. ?hosts ! i = PStr s \<longrightarrow> out ! i = PDict [(''host'', PStr s)])
                 \<and> (is_dict (?hosts ! i) \<longrightarrow> out ! i = ?hosts ! i)"
    by auto
  from el have "out ! 0 = PDict [(''host'', PStr ''web1'')]" by simp
  moreover from el have "out ! 1 = PDict [(''host'', PStr ''db''), (''port'', PInt 2222)]"
    by simp
  moreover from el have "out ! Suc (Suc 0) = PDict [(''host'', PStr ''web1'')]"
    by (simp add: numeral_2_eq_2 [symmetric])
  ultimately have "out = [PDict [(''host'', PStr ''web1'')],
          PDict [(''host'', PStr ''db''), (''port'', PInt 2222)],
          PDict [(''host'', PStr ''web1'')]]"
    using len by (auto simp: list_eq_iff_nth_eq less_Suc_eq numeral_3_eq_3)
  with r show ?thesis by simp
qed

lemma normalize_hosts_find:
  "normalize_hosts fmt hosts =
     (case find (\<lambda>h. \<not> host_spec h) hosts of
        None \<Rightarrow> Inr (map host_record hosts)
      | Some bad \<Rightarrow> Inl (ValueError (''Invalid host specification: '' @ fmt bad)))"
proof (cases "find (\<lambda>h. \<not> host_spec h) hosts")
  case None
  then have "list_all host_spec hosts"
    by (auto simp: find_None_iff list_all_iff)
  then show ?thesis using None normalize_loop_ok [of hosts fmt "[]"]
    by (simp add: normalize_hosts_def)
next
  case (Some bad)
  then obtain i where i: "i < length hosts" "\<not> host_spec (hosts ! i)" "bad = hosts ! i"
    and before: "\<forall>j < i. host_spec (hosts ! j)"
    by (auto simp: find_Some_iff)
  have split: "hosts = take i hosts @ bad # drop (Suc i) hosts"
    using i by (simp add: id_take_nth_drop)
  have pre: "list_all host_spec (take i hosts)"
    using before i(1) by (auto simp: list_all_length)
  have "normalize_loop fmt [] (take i hosts @ bad # drop (Suc i) hosts) =
          Inl (ValueError (''Invalid host specification: '' @ fmt bad))"
    using pre i(2,3) by (intro normalize_loop_bad) simp_all
  with split have "normalize_hosts fmt hosts =
          Inl (ValueError (''Invalid host specification: '' @ fmt bad))"
    by (simp add: normalize_hosts_def)
  with Some show ?thesis by simp
qed




text \<open>
  Normalization alone signals nothing on an empty list: a host list normalizes to an
  empty sequence exactly when it is empty, and no run of \<^verbatim>\<open>normalize_hosts\<close> ends in
  \<^verbatim>\<open>NothingToDo\<close>. Whatever is to be signalled for an empty host list is left to the
  code that calls \<^verbatim>\<open>normalize_hosts\<close>; \<^verbatim>\<open>fabric/executor.py\<close> imports \<^verbatim>\<open>NothingToDo\<close> and
  has no such caller.
\<close>

lemma normalize_hosts_empty_iff:
  "(normalize_hosts fmt hosts = Inr []) = (hosts = [])
   \<and> normalize_hosts fmt [] = Inr []
   \<and> normalize_hosts fmt hosts \<noteq> Inl (NothingToDo msg)"
  by (cases "find (\<lambda>h. \<not> host_spec h) hosts") (auto simp: normalize_hosts_find)

section \<open>Call and ConnectionCall\<close>

text \<open>
  The attributes of an \<^verbatim>\<open>invoke.Call\<close>, and those that \<^verbatim>\<open>ConnectionCall\<close> adds. The
  attribute \<^verbatim>\<open>context\<close> does not exist on a new object: \<^verbatim>\<open>parameterize\<close> assigns it,
  so it is optional here.
\<close>

record 'x call =
  call_task :: "'x pyval"
  call_called_as :: "'x pyval"
  call_args :: "'x pyval"
  call_kwargs :: "'x pyval"

record 'x connection_call = "'x call" +
  init_kwargs :: "'x pyval"
  call_context :: "'x pyval option"

text \<open>
  \<^verbatim>\<open>
  def __init__(self, *args, **kwargs):
      init_kwargs = kwargs.pop('init_kwargs')
      super().__init__(*args, **kwargs)
      self.init_kwargs = init_kwargs
  \<close>
  The constructor of the superclass belongs to Invoke and is the first parameter. It
  receives the keyword arguments without \<^verbatim>\<open>init_kwargs\<close>.
\<close>

definition ConnectionCall_init ::
  "('x pyval list \<Rightarrow> 'x kwargs \<Rightarrow> error + 'x call) \<Rightarrow>
   'x pyval list \<Rightarrow> 'x kwargs \<Rightarrow> error + 'x connection_call" where
  "ConnectionCall_init Call_init args kwargs =
     (case map_of kwargs ''init_kwargs'' of
        None \<Rightarrow> Inl (KeyError ''init_kwargs'')
      | Some ik \<Rightarrow>
          (case Call_init args (AList.delete ''init_kwargs'' kwargs) of
             Inl e \<Rightarrow> Inl e
           | Inr c \<Rightarrow> Inr \<lparr>call_task = call_task c, call_called_as = call_called_as c,
                          call_args = call_args c, call_kwargs = call_kwargs c,
                          init_kwargs = ik, call_context = None\<rparr>))"

text \<open>
  Invoke's \<^verbatim>\<open>Call.__init__(self, task, called_as=None, args=None, kwargs=None)\<close>, which
  stores \<^verbatim>\<open>args or tuple()\<close> and \<^verbatim>\<open>kwargs or dict()\<close>. It stands for the parameter
  where the model is run on concrete inputs; no definition of the repository's code
  depends on it.
\<close>

definition invoke_Call_init :: "'x pyval list \<Rightarrow> 'x kwargs \<Rightarrow> error + 'x call" where
  "invoke_Call_init args kwargs =
     (let params = [''task'', ''called_as'', ''args'', ''kwargs''];
          bound = zip params args @ kwargs
      in if length params < length args then
           Inl (TypeError ''too many positional arguments'')
         else if list_ex (\<lambda>k. k \<notin> set params) (map fst kwargs) then
           Inl (TypeError ''unexpected keyword argument'')
         else if list_ex (\<lambda>k. k \<in> set (take (length args) params)) (map fst kwargs) then
           Inl (TypeError ''multiple values for argument'')
         else
           (case map_of bound ''task'' of
              None \<Rightarrow> Inl (TypeError ''missing required argument: task'')
            | Some t \<Rightarrow>
                Inr \<lparr>call_task = t,
                     call_called_as = (case map_of bound ''called_as'' of
                                         None \<Rightarrow> PNone | Some v \<Rightarrow> v),
                     call_args = (case map_of bound ''args'' of
                                    None \<Rightarrow> PTuple []
                                  | Some v \<Rightarrow> if truthy v then v else PTuple []),
                     call_kwargs = (case map_of bound ''kwargs'' of
                                      None \<Rightarrow> PDict []
                                    | Some v \<Rightarrow> if truthy v then v else PDict [])\<rparr>))"

section \<open>Executor.parameterize\<close>

text \<open>
  The names bound at module level in \<^verbatim>\<open>fabric/executor.py\<close>, each with the place it is
  imported from (lines 1 to 5) or defined (line 7). A name used in a function body and
  not assigned there is looked up here, then among the built-ins, and a \<^verbatim>\<open>NameError\<close>
  is raised when it is in neither.
\<close>

datatype binding =
    Module string
  | Imported string string
  | Defined string

definition executor_globals :: "(string \<times> binding) list" where
  "executor_globals =
     [(''invoke'', Module ''invoke''),
      (''Call'', Imported ''invoke'' ''Call''),
      (''Task'', Imported ''invoke'' ''Task''),
      (''ConnectionCall'', Imported ''fabric.tasks'' ''ConnectionCall''),
      (''NothingToDo'', Imported ''fabric.exceptions'' ''NothingToDo''),
      (''debug'', Imported ''fabric.util'' ''debug''),
      (''Executor'', Defined ''Executor'')]"

text \<open>The names bound in \<^verbatim>\<open>fabric/tasks.py\<close>, where \<^verbatim>\<open>Connection\<close> is imported (line 2).\<close>

definition tasks_globals :: "(string \<times> binding) list" where
  "tasks_globals =
     [(''invoke'', Module ''invoke''),
      (''Connection'', Imported ''fabric.connection'' ''Connection''),
      (''Task'', Defined ''Task''),
      (''task'', Defined ''task''),
      (''ConnectionCall'', Defined ''ConnectionCall'')]"

definition lookup_name :: "(string \<times> 'b) list \<Rightarrow> string \<Rightarrow> error + 'b" where
  "lookup_name globals name =
     (case map_of globals name of None \<Rightarrow> Inl (NameError name) | Some b \<Rightarrow> Inr b)"

text \<open>A call \<^verbatim>\<open>f(**d)\<close> needs a mapping \<^verbatim>\<open>d\<close>.\<close>

fun unpack_kwargs :: "'x pyval \<Rightarrow> error + 'x kwargs" where
  "unpack_kwargs (PDict d) = Inr d"
| "unpack_kwargs _ = Inl (TypeError ''argument after ** must be a mapping'')"

text \<open>
  \<^verbatim>\<open>
  from .tasks import ConnectionCall
  connection_call = ConnectionCall(
      task=call.task, args=call.args, kwargs=call.kwargs,
      init_kwargs=connection_init_kwargs)
  connection_call.context = Connection(**connection_init_kwargs)
  return connection_call
  \<close>
  The parameters are the module's names, the call of a class object with keyword
  arguments (the class \<^verbatim>\<open>Connection\<close> is in \<^verbatim>\<open>fabric/connection.py\<close>), and Invoke's
  constructor of \<^verbatim>\<open>Call\<close>. In the call expression the callee \<^verbatim>\<open>Connection\<close> is evaluated
  before its arguments.
\<close>

definition parameterize ::
  "(string \<times> 'b) list \<Rightarrow> ('b \<Rightarrow> 'x kwargs \<Rightarrow> error + 'x pyval) \<Rightarrow>
   ('x pyval list \<Rightarrow> 'x kwargs \<Rightarrow> error + 'x call) \<Rightarrow>
   'x call \<Rightarrow> 'x pyval \<Rightarrow> error + 'x connection_call" where
  "parameterize globals instantiate Call_init call connection_init_kwargs =
     (case ConnectionCall_init Call_init []
             [(''task'', call_task call), (''args'', call_args call),
              (''kwargs'', call_kwargs call), (''init_kwargs'', connection_init_kwargs)] of
        Inl e \<Rightarrow> Inl e
      | Inr connection_call \<Rightarrow>
          (case lookup_name globals ''Connection'' of
             Inl e \<Rightarrow> Inl e
           | Inr cls \<Rightarrow>
               (case unpack_kwargs connection_init_kwargs of
                  Inl e \<Rightarrow> Inl e
                | Inr kw \<Rightarrow>
                    (case instantiate cls kw of
                       Inl e \<Rightarrow> Inl e
                     | Inr cxn \<Rightarrow> Inr (connection_call\<lparr>call_context := Some cxn\<rparr>)))))"

lemma ConnectionCall_init_missing:
  "map_of kwargs ''init_kwargs'' = None \<Longrightarrow>
   ConnectionCall_init Call_init args kwargs = Inl (KeyError ''init_kwargs'')"
  by (simp add: ConnectionCall_init_def)

lemma ConnectionCall_init_Inr:
  "ConnectionCall_init Call_init args kwargs = Inr cc \<Longrightarrow>
   map_of kwargs ''init_kwargs'' = Some (init_kwargs cc)"
  by (auto simp: ConnectionCall_init_def split: option.splits sum.splits)

text \<open>
  Claim C9. Constructing a \<^verbatim>\<open>ConnectionCall\<close> without the keyword argument
  \<^verbatim>\<open>init_kwargs\<close> raises \<^verbatim>\<open>KeyError\<close>, whatever the other arguments are and whatever
  the superclass constructor would do; and every \<^verbatim>\<open>ConnectionCall\<close> that a
  construction returns has as \<^verbatim>\<open>init_kwargs\<close> the value that was supplied under that
  keyword.
\<close>

theorem ConnectionCall_init_kwargs_mandatory:
  "(map_of kwargs ''init_kwargs'' = None \<longrightarrow>
      ConnectionCall_init Call_init args kwargs = Inl (KeyError ''init_kwargs''))
   \<and> (\<forall>cc. ConnectionCall_init Call_init args kwargs = Inr cc \<longrightarrow>
         map_of kwargs ''init_kwargs'' = Some (init_kwargs cc))"
  using ConnectionCall_init_missing [of kwargs Call_init args]
    ConnectionCall_init_Inr [of Call_init args kwargs]
  by blast

theorem ConnectionCall_init_kwargs_mandatory_witness:
  "ConnectionCall_init invoke_Call_init [PFunc 1 []] [(''args'', PTuple [PInt 1 :: unit pyval])]
     = Inl (KeyError ''init_kwargs'')
   \<and> ConnectionCall_init invoke_Call_init [PFunc 1 []]
        [(''init_kwargs'', PDict [(''host'', PStr ''web1'')])]
     = Inr \<lparr>call_task = PFunc 1 [], call_called_as = PNone, call_args = PTuple [],
            call_kwargs = PDict [], init_kwargs = PDict [(''host'', PStr ''web1'')],
            call_context = None :: unit pyval option\<rparr>
   \<and> map_of [(''init_kwargs'', PDict [(''host'', PStr ''web1'')])] ''init_kwargs''
     = Some (PDict [(''host'', PStr ''web1'') :: string \<times> unit pyval])"
proof -
  have none: "map_of [(''args'', PTuple [PInt 1 :: unit pyval])] ''init_kwargs'' = None"
    by simp
  have built: "ConnectionCall_init invoke_Call_init [PFunc 1 []]
        [(''init_kwargs'', PDict [(''host'', PStr ''web1'')])]
     = Inr \<lparr>call_task = PFunc 1 [], call_called_as = PNone, call_args = PTuple [],
            call_kwargs = PDict [], init_kwargs = PDict [(''host'', PStr ''web1'')],
            call_context = None :: unit pyval option\<rparr>"
    by (simp add: ConnectionCall_init_def invoke_Call_init_def)
  from ConnectionCall_init_kwargs_mandatory
         [of "[(''args'', PTuple [PInt 1 :: unit pyval])]" invoke_Call_init "[PFunc 1 []]"] none
  have 1: "ConnectionCall_init invoke_Call_init [PFunc 1 []]
             [(''args'', PTuple [PInt 1 :: unit pyval])] = Inl (KeyError ''init_kwargs'')"
    by blast
  from ConnectionCall_init_kwargs_mandatory
         [of "[(''init_kwargs'', PDict [(''host'', PStr ''web1'') :: string \<times> unit pyval])]"
             invoke_Call_init "[PFunc 1 []]"] built
  have 2: "map_of [(''init_kwargs'', PDict [(''host'', PStr ''web1'')])] ''init_kwargs''
     = Some (PDict [(''host'', PStr ''web1'') :: string \<times> unit pyval])"
    by simp
  from 1 built 2 show ?thesis by blast
qed

lemma ConnectionCall_init_parameterize:
  "ConnectionCall_init Call_init []
     [(''task'', t), (''args'', a), (''kwargs'', k), (''init_kwargs'', ik)] =
   (case Call_init [] [(''task'', t), (''args'', a), (''kwargs'', k)] of
      Inl e \<Rightarrow> Inl e
    | Inr c \<Rightarrow> Inr \<lparr>call_task = call_task c, call_called_as = call_called_as c,
                   call_args = call_args c, call_kwargs = call_kwargs c,
                   init_kwargs = ik, call_context = None\<rparr>)"
  by (simp add: ConnectionCall_init_def)

lemma invoke_Call_init_keywords:
  "invoke_Call_init [] [(''task'', t), (''args'', a), (''kwargs'', k)] =
     Inr \<lparr>call_task = t, call_called_as = PNone,
          call_args = (if truthy a then a else PTuple []),
          call_kwargs = (if truthy k then k else PDict [])\<rparr>"
  by (simp add: invoke_Call_init_def)

text \<open>
  What \<^verbatim>\<open>parameterize\<close> returns in a module where the name \<^verbatim>\<open>Connection\<close> is bound
  to a class \<open>cls\<close> whose instantiation from the record succeeds: the task, the
  arguments and the record are carried over, and the context is the new instance.
\<close>

lemma parameterize_bound:
  assumes "map_of globals ''Connection'' = Some cls"
    and "instantiate cls kw = Inr cxn"
  shows "parameterize globals instantiate invoke_Call_init call (PDict kw) =
     Inr \<lparr>call_task = call_task call, call_called_as = PNone,
          call_args = (if truthy (call_args call) then call_args call else PTuple []),
          call_kwargs = (if truthy (call_kwargs call) then call_kwargs call else PDict []),
          init_kwargs = PDict kw, call_context = Some cxn\<rparr>"
  using assms
  by (simp add: parameterize_def ConnectionCall_init_parameterize
      invoke_Call_init_keywords lookup_name_def)

lemma parameterize_in_tasks_module:
  "parameterize tasks_globals (\<lambda>cls kw. Inr (PDict kw)) invoke_Call_init
     \<lparr>call_task = PFunc 1 [], call_called_as = PStr ''deploy'',
      call_args = PTuple [PInt 1], call_kwargs = PDict []\<rparr>
     (PDict [(''host'', PStr ''web1'')]) =
   Inr \<lparr>call_task = PFunc 1 [], call_called_as = PNone,
        call_args = PTuple [PInt 1], call_kwargs = PDict [],
        init_kwargs = PDict [(''host'', PStr ''web1'')],
        call_context = Some (PDict [(''host'', PStr ''web1'')])\<rparr>"
  by (simp add: parameterize_bound [where cls = "Imported ''fabric.connection'' ''Connection''"]
      tasks_globals_def)

lemma executor_globals_Connection: "map_of executor_globals ''Connection'' = None"
  by (simp add: executor_globals_def)

lemma parameterize_never_returns:
  "parameterize executor_globals instantiate Call_init call kw \<noteq> Inr cc"
  by (simp add: parameterize_def lookup_name_def executor_globals_Connection
      split: sum.splits)

text \<open>
  Claim C2, on the code. \<^verbatim>\<open>fabric/executor.py\<close> does not import \<^verbatim>\<open>Connection\<close> (only
  \<^verbatim>\<open>fabric/tasks.py\<close> does), so line 74 raises \<^verbatim>\<open>NameError\<close> after the \<^verbatim>\<open>ConnectionCall\<close>
  has been built: for every call and every record, \<^verbatim>\<open>parameterize\<close> ends in that error
  and returns no \<^verbatim>\<open>ConnectionCall\<close>.
\<close>

theorem parameterize_raises_NameError:
  "parameterize executor_globals instantiate invoke_Call_init call kw =
     Inl (NameError ''Connection'')"
  by (simp add: parameterize_def ConnectionCall_init_parameterize
      invoke_Call_init_keywords lookup_name_def executor_globals_Connection)

section \<open>The task decorator\<close>

text \<open>
  What the decorator uses from outside the repository: Invoke's \<^verbatim>\<open>invoke.task\<close>, the
  call of the object that it returned with one positional argument, and, for an
  object of a library, whether it is callable and the assignment of an attribute.
\<close>

record 'x external =
  invoke_task :: "'x pyval list \<Rightarrow> 'x kwargs \<Rightarrow> error + 'x pyval"
  call_object :: "'x pyval \<Rightarrow> 'x pyval \<Rightarrow> error + 'x pyval"
  ext_callable :: "'x \<Rightarrow> bool"
  ext_setattr :: "'x \<Rightarrow> string \<Rightarrow> 'x pyval \<Rightarrow> error + 'x"

fun callable :: "'x external \<Rightarrow> 'x pyval \<Rightarrow> bool" where
  "callable ext (PFunc i attrs) = True"
| "callable ext (PExt x) = ext_callable ext x"
| "callable ext _ = False"

text \<open>\<^verbatim>\<open>func.hosts = hosts\<close>: an entry of the function's \<^verbatim>\<open>__dict__\<close>.\<close>

fun setattr :: "'x external \<Rightarrow> 'x pyval \<Rightarrow> string \<Rightarrow> 'x pyval \<Rightarrow> error + 'x pyval" where
  "setattr ext (PFunc i attrs) name v = Inr (PFunc i (AList.update name v attrs))"
| "setattr ext (PExt x) name v =
     (case ext_setattr ext x name v of Inl e \<Rightarrow> Inl e | Inr x' \<Rightarrow> Inr (PExt x'))"
| "setattr ext _ name v = Inl (AttributeError name)"

text \<open>
  The assignment changes the object itself, so a positional argument that is this
  object (as in the form without parentheses, where \<^verbatim>\<open>args[0]\<close> is \<^verbatim>\<open>func\<close>) shows it too.
\<close>

fun same_object :: "'x pyval \<Rightarrow> 'x pyval \<Rightarrow> bool" where
  "same_object (PFunc i a) (PFunc j b) = (i = j)"
| "same_object (PExt x) (PExt y) = (x = y)"
| "same_object _ _ = False"

text \<open>
  \<^verbatim>\<open>
  def wrapper(func):
      if hosts:
          func.hosts = hosts
      return invoke.task(*args, **kwargs)(func)
  \<close>
  with the variables \<^verbatim>\<open>args\<close>, \<^verbatim>\<open>kwargs\<close> and \<^verbatim>\<open>hosts\<close> of the enclosing call of \<^verbatim>\<open>task\<close>.
\<close>

definition invoke_task_on ::
  "'x external \<Rightarrow> 'x pyval list \<Rightarrow> 'x kwargs \<Rightarrow> 'x pyval \<Rightarrow> error + 'x pyval" where
  "invoke_task_on ext args kwargs func =
     (case invoke_task ext args kwargs of
        Inl e \<Rightarrow> Inl e
      | Inr decorator \<Rightarrow> call_object ext decorator func)"

definition wrapper ::
  "'x external \<Rightarrow> 'x pyval list \<Rightarrow> 'x kwargs \<Rightarrow> 'x pyval \<Rightarrow> 'x pyval \<Rightarrow> error + 'x pyval" where
  "wrapper ext args kwargs hosts func =
     (if truthy hosts then
        (case setattr ext func ''hosts'' hosts of
           Inl e \<Rightarrow> Inl e
         | Inr func' \<Rightarrow>
             invoke_task_on ext (map (\<lambda>a. if same_object a func then func' else a) args)
               kwargs func')
      else invoke_task_on ext args kwargs func)"

text \<open>
  \<^verbatim>\<open>
  def task(*args, **kwargs):
      hosts = kwargs.pop('hosts', None)
      def wrapper(func): ...
      if len(args) == 1 and callable(args[0]):
          return wrapper(args[0])
      return wrapper
  \<close>
  The result is either the closure \<^verbatim>\<open>wrapper\<close>, with the variables it captured, or
  the value that \<^verbatim>\<open>wrapper(args[0])\<close> returned.
\<close>

datatype 'x task_result =
    Wrapper "'x pyval list" "'x kwargs" "'x pyval"
  | Returned "'x pyval"

definition task :: "'x external \<Rightarrow> 'x pyval list \<Rightarrow> 'x kwargs \<Rightarrow> error + 'x task_result" where
  "task ext args kwargs =
     (let hosts = (case map_of kwargs ''hosts'' of None \<Rightarrow> PNone | Some h \<Rightarrow> h);
          kwargs' = AList.delete ''hosts'' kwargs
      in if length args = 1 \<and> callable ext (hd args) then
           (case wrapper ext args kwargs' hosts (hd args) of
              Inl e \<Rightarrow> Inl e
            | Inr t \<Rightarrow> Inr (Returned t))
         else Inr (Wrapper args kwargs' hosts))"

text \<open>
  Decoration: \<^verbatim>\<open>@d\<close> above \<^verbatim>\<open>def f\<close> binds \<^verbatim>\<open>f\<close> to \<^verbatim>\<open>d(f)\<close>. So \<^verbatim>\<open>@task\<close> gives
  \<^verbatim>\<open>task(f)\<close>, and \<^verbatim>\<open>@task(*args, **kwargs)\<close> gives \<^verbatim>\<open>task(*args, **kwargs)(f)\<close>.
\<close>

definition apply_decorator ::
  "'x external \<Rightarrow> 'x task_result \<Rightarrow> 'x pyval \<Rightarrow> error + 'x pyval" where
  "apply_decorator ext d func =
     (case d of
        Wrapper args kwargs hosts \<Rightarrow> wrapper ext args kwargs hosts func
      | Returned obj \<Rightarrow> call_object ext obj func)"

definition decorate_bare :: "'x external \<Rightarrow> 'x pyval \<Rightarrow> error + 'x task_result" where
  "decorate_bare ext func = task ext [func] []"

definition decorate_with ::
  "'x external \<Rightarrow> 'x pyval list \<Rightarrow> 'x kwargs \<Rightarrow> 'x pyval \<Rightarrow> error + 'x pyval" where
  "decorate_with ext args kwargs func =
     (case task ext args kwargs of
        Inl e \<Rightarrow> Inl e
      | Inr d \<Rightarrow> apply_decorator ext d func)"

text \<open>
  Invoke's side of the decoration, to run the decorator on concrete inputs; no
  definition of the repository's code depends on it. \<^verbatim>\<open>invoke.task\<close> called with one
  callable that is not a task returns the \<^verbatim>\<open>Task\<close> built around it; otherwise it
  takes the positional arguments as the tasks to run before and returns a decorator,
  which builds the \<^verbatim>\<open>Task\<close> when it is called with the body. A \<^verbatim>\<open>Task\<close> is callable,
  and its call raises \<^verbatim>\<open>TypeError\<close> unless the first argument is a \<^verbatim>\<open>Context\<close>; the
  values here hold no \<^verbatim>\<open>Context\<close>. Attributes assigned to a \<^verbatim>\<open>Task\<close> are not recorded.
\<close>

datatype invoke_obj =
    InvokeTask "invoke_obj pyval" "(string \<times> invoke_obj pyval) list"
  | InvokeDecorator "(string \<times> invoke_obj pyval) list"

definition Task_keywords :: "string list" where
  "Task_keywords = [''name'', ''aliases'', ''positional'', ''optional'', ''default'',
     ''auto_shortflags'', ''help'', ''pre'', ''post'', ''autoprint'', ''iterable'',
     ''incrementable'']"

definition Task_init ::
  "invoke_obj pyval \<Rightarrow> invoke_obj kwargs \<Rightarrow> error + invoke_obj pyval" where
  "Task_init body kw =
     (if list_all (\<lambda>k. k \<in> set Task_keywords) (map fst kw)
      then Inr (PExt (InvokeTask body kw))
      else Inl (TypeError ''unexpected keyword argument''))"

definition invoke_model :: "invoke_obj external" where
  "invoke_model =
     \<lparr>invoke_task = (\<lambda>args kwargs.
          let kw = AList.delete ''klass'' kwargs in
          if length args = 1 \<and> (case hd args of PFunc i a \<Rightarrow> True
                                  | PExt (InvokeDecorator k) \<Rightarrow> True | _ \<Rightarrow> False)
          then Task_init (hd args) kw
          else if args \<noteq> [] \<and> map_of kw ''pre'' \<noteq> None
          then Inl (TypeError ''May not give *args and pre kwarg simultaneously!'')
          else Inr (PExt (InvokeDecorator
                 (if args \<noteq> [] then AList.update ''pre'' (PTuple args) kw else kw)))),
      call_object = (\<lambda>obj arg.
          case obj of
            PExt (InvokeDecorator kw) \<Rightarrow> Task_init arg kw
          | PExt (InvokeTask body kw) \<Rightarrow>
              Inl (TypeError ''Task expected a Context as first arg'')
          | _ \<Rightarrow> Inl (TypeError ''object is not callable'')),
      ext_callable = (\<lambda>x. True),
      ext_setattr = (\<lambda>x name v. Inr x)\<rparr>"

lemma task_on_function:
  "task ext [PFunc i attrs] [] =
     (case invoke_task ext [PFunc i attrs] [] of
        Inl e \<Rightarrow> Inl e
      | Inr d \<Rightarrow> (case call_object ext d (PFunc i attrs) of
                   Inl e \<Rightarrow> Inl e | Inr t \<Rightarrow> Inr (Returned t)))"
  by (simp add: task_def wrapper_def invoke_task_on_def split: sum.splits)

lemma decorate_with_nothing:
  "decorate_with ext [] [] func =
     (case invoke_task ext [] [] of Inl e \<Rightarrow> Inl e | Inr d \<Rightarrow> call_object ext d func)"
  by (simp add: decorate_with_def task_def apply_decorator_def wrapper_def
      invoke_task_on_def)

text \<open>
  Claim C7, on the code. Without parentheses the function is handed to \<^verbatim>\<open>invoke.task\<close>
  and the result, which is already the task, is then called with the function again:
  \<^verbatim>\<open>task(f)\<close> is \<^verbatim>\<open>invoke.task(f)(f)\<close>, where the form with parentheses computes
  \<^verbatim>\<open>invoke.task()(f)\<close>. With Invoke's decorator the first ends in the \<^verbatim>\<open>TypeError\<close> of
  calling a task without a context, and the second is the task around \<^verbatim>\<open>f\<close>.
\<close>

theorem task_bare_not_equivalent:
  "decorate_bare invoke_model (PFunc 1 []) =
     Inl (TypeError ''Task expected a Context as first arg'')
   \<and> decorate_with invoke_model [] [] (PFunc 1 []) =
     Inr (PExt (InvokeTask (PFunc 1 []) []))"
  by (simp add: decorate_bare_def task_on_function decorate_with_nothing invoke_model_def
      Task_init_def)

lemma wrapper_falsy:
  "\<not> truthy hosts \<Longrightarrow> wrapper ext args kwargs hosts func = invoke_task_on ext args kwargs func"
  by (simp add: wrapper_def)

lemma delete_hosts_idem:
  "AList.delete ''hosts'' (AList.delete ''hosts'' kwargs) = AList.delete ''hosts'' kwargs"
  by (simp add: AList.delete_idem)

lemma map_of_delete_hosts: "map_of (AList.delete ''hosts'' kwargs) ''hosts'' = None"
  by (simp add: AList.delete_eq map_of_eq_None_iff image_iff)

text \<open>
  Claim C10. When the decorator is given \<^verbatim>\<open>hosts=[]\<close>, decorating a callable gives
  exactly what it gives with the same arguments and no \<^verbatim>\<open>hosts\<close> keyword at all; and in
  the form with parentheses the callable reaches \<^verbatim>\<open>invoke.task\<close> as it was, with no
  \<^verbatim>\<open>hosts\<close> attribute assigned and no \<^verbatim>\<open>hosts\<close> keyword passed on.
\<close>

theorem task_empty_hosts:
  assumes "map_of kwargs ''hosts'' = Some (PList [])"
  shows "decorate_with ext args kwargs func =
           decorate_with ext args (AList.delete ''hosts'' kwargs) func
       \<and> (\<not> (length args = 1 \<and> callable ext (hd args)) \<longrightarrow>
            decorate_with ext args kwargs func =
              (case invoke_task ext args (AList.delete ''hosts'' kwargs) of
                 Inl e \<Rightarrow> Inl e
               | Inr d \<Rightarrow> call_object ext d func))"
  using assms
  by (simp add: decorate_with_def task_def apply_decorator_def wrapper_falsy
      delete_hosts_idem map_of_delete_hosts invoke_task_on_def Let_def)

theorem task_empty_hosts_witness:
  "decorate_with invoke_model [] [(''name'', PStr ''deploy''), (''hosts'', PList [])] (PFunc 1 [])
     = decorate_with invoke_model [] [(''name'', PStr ''deploy'')] (PFunc 1 [])
   \<and> decorate_with invoke_model [] [(''name'', PStr ''deploy''), (''hosts'', PList [])] (PFunc 1 [])
     = Inr (PExt (InvokeTask (PFunc 1 []) [(''name'', PStr ''deploy'')]))"
proof -
  let ?kw = "[(''name'', PStr ''deploy''), (''hosts'', PList [])] :: invoke_obj kwargs"
  have h: "map_of ?kw ''hosts'' = Some (PList [])" by simp
  have d: "AList.delete ''hosts'' ?kw = [(''name'', PStr ''deploy'')]"
    by (simp add: AList.delete_eq)
  have nb: "\<not> (length ([] :: invoke_obj pyval list) = 1 \<and> callable invoke_model (hd []))"
    by simp
  have run: "(case invoke_task invoke_model [] [(''name'', PStr ''deploy'')] of
                Inl e \<Rightarrow> Inl e
              | Inr d \<Rightarrow> call_object invoke_model d (PFunc 1 []))
             = Inr (PExt (InvokeTask (PFunc 1 []) [(''name'', PStr ''deploy'')]))"
    by (simp add: invoke_model_def Task_init_def Task_keywords_def AList.delete_eq)
  from task_empty_hosts [OF h, of invoke_model "[]" "PFunc 1 []"] nb
  have "decorate_with invoke_model [] ?kw (PFunc 1 []) =
           decorate_with invoke_model [] (AList.delete ''hosts'' ?kw) (PFunc 1 [])"
    and "decorate_with invoke_model [] ?kw (PFunc 1 []) =
              (case invoke_task invoke_model [] (AList.delete ''hosts'' ?kw) of
                 Inl e \<Rightarrow> Inl e
               | Inr d \<Rightarrow> call_object invoke_model d (PFunc 1 []))"
    by blast+
  then show ?thesis unfolding d run by simp
qed

section \<open>normalize_hosts on a store\<close>

text \<open>
  Whether \<^verbatim>\<open>normalize_hosts\<close> changes the list it is given depends on which objects
  are the same, so here the objects live in a store: a list of objects, an address
  being a position. A new object is put at the end. A list holds the addresses of its
  elements and a dictionary those of its values; \<open>OOther\<close> is any object that is
  neither a string, a dictionary nor a list, with the name of its type.
\<close>

datatype obj =
    OStr string
  | ODict "(string \<times> nat) list"
  | OList "nat list"
  | OOther string

type_synonym heap = "obj list"

text \<open>
  Reading an address. An address beyond the store occurs in no state of a Python
  program; the model has no result there.
\<close>

definition deref :: "heap \<Rightarrow> nat \<Rightarrow> obj option" where
  "deref h a = (if a < length h then Some (h ! a) else None)"

text \<open>\<^verbatim>\<open>l.append(x)\<close>: the list object at \<open>l\<close> is changed where it is.\<close>

definition list_append :: "heap \<Rightarrow> nat \<Rightarrow> nat \<Rightarrow> heap option" where
  "list_append h l x =
     (case deref h l of
        Some (OList ys) \<Rightarrow> Some (h[l := OList (ys @ [x])])
      | _ \<Rightarrow> None)"

text \<open>
  One round of \<^verbatim>\<open>for host in hosts\<close>. The iterator of a list reads the list object
  anew at each round: it stops when its index has reached the length that the list
  has then. The body is lines 42 to 47; \<^verbatim>\<open>{"host": host}\<close> is a new dictionary whose
  value is the string object itself.
\<close>

datatype step = Finished | Continue heap | Raise error | Stuck

definition loop_body :: "(heap \<Rightarrow> nat \<Rightarrow> string) \<Rightarrow> nat \<Rightarrow> nat \<Rightarrow> heap \<Rightarrow> step" where
  "loop_body fmt normalized host h =
     (case deref h host of
        Some (OStr s) \<Rightarrow>
          (case list_append (h @ [ODict [(''host'', host)]]) normalized (length h) of
             Some h' \<Rightarrow> Continue h' | None \<Rightarrow> Stuck)
      | Some (ODict d) \<Rightarrow>
          (case list_append h normalized host of
             Some h' \<Rightarrow> Continue h' | None \<Rightarrow> Stuck)
      | Some _ \<Rightarrow> Raise (ValueError (''Invalid host specification: '' @ fmt h host))
      | None \<Rightarrow> Stuck)"

definition loop_step :: "(heap \<Rightarrow> nat \<Rightarrow> string) \<Rightarrow> nat \<Rightarrow> nat \<Rightarrow> nat \<Rightarrow> heap \<Rightarrow> step" where
  "loop_step fmt hosts normalized i h =
     (case deref h hosts of
        Some (OList xs) \<Rightarrow>
          if i < length xs then loop_body fmt normalized (xs ! i) h else Finished
      | _ \<Rightarrow> Stuck)"

text \<open>
  The loop. It has no result (\<open>None\<close>) when it does not end or when a round is
  stuck on an address beyond the store or on an argument that is not a list object.
  Otherwise the result is the address of \<^verbatim>\<open>normalized\<close> or the exception raised,
  with the store as it is then.
\<close>

partial_function (option) normalize_hosts_loop ::
  "(heap \<Rightarrow> nat \<Rightarrow> string) \<Rightarrow> nat \<Rightarrow> nat \<Rightarrow> nat \<Rightarrow> heap \<Rightarrow> ((error + nat) \<times> heap) option" where
  "normalize_hosts_loop fmt hosts normalized i h =
     (case loop_step fmt hosts normalized i h of
        Finished \<Rightarrow> Some (Inr normalized, h)
      | Raise e \<Rightarrow> Some (Inl e, h)
      | Continue h' \<Rightarrow> normalize_hosts_loop fmt hosts normalized (Suc i) h'
      | Stuck \<Rightarrow> None)"

declare normalize_hosts_loop.simps [code]

text \<open>\<^verbatim>\<open>normalized = []\<close> is a new list object; then the loop runs from the first element.\<close>

definition normalize_hosts_heap ::
  "(heap \<Rightarrow> nat \<Rightarrow> string) \<Rightarrow> nat \<Rightarrow> heap \<Rightarrow> ((error + nat) \<times> heap) option" where
  "normalize_hosts_heap fmt hosts h =
     normalize_hosts_loop fmt hosts (length h) 0 (h @ [OList []])"

text \<open>
  What holds at every round: the argument is a list object whose elements are in the
  store, and \<^verbatim>\<open>normalized\<close> is another list object. The frame of the loop: the store
  only grows, and no object other than \<^verbatim>\<open>normalized\<close> is changed.
\<close>

definition loop_inv :: "nat \<Rightarrow> nat list \<Rightarrow> nat \<Rightarrow> heap \<Rightarrow> bool" where
  "loop_inv hosts xs normalized h =
     (hosts < length h \<and> h ! hosts = OList xs \<and> (\<forall>a \<in> set xs. a < length h)
      \<and> normalized < length h \<and> normalized \<noteq> hosts
      \<and> (\<exists>ys. h ! normalized = OList ys))"

definition frame :: "nat \<Rightarrow> heap \<Rightarrow> heap \<Rightarrow> bool" where
  "frame normalized h h' =
     (length h \<le> length h' \<and> (\<forall>a < length h. a \<noteq> normalized \<longrightarrow> h' ! a = h ! a))"

lemma frame_refl: "frame n h h"
  by (simp add: frame_def)

lemma frame_trans: "frame n h h1 \<Longrightarrow> frame n h1 h2 \<Longrightarrow> frame n h h2"
  by (auto simp: frame_def)

lemma loop_step_finished:
  "loop_inv hosts xs n h \<Longrightarrow> \<not> i < length xs \<Longrightarrow> loop_step fmt hosts n i h = Finished"
  by (simp add: loop_step_def loop_inv_def deref_def)

lemma loop_step_continue:
  assumes "loop_inv hosts xs n h" "i < length xs"
  shows "(\<exists>e. loop_step fmt hosts n i h = Raise e)
       \<or> (\<exists>h'. loop_step fmt hosts n i h = Continue h' \<and> loop_inv hosts xs n h' \<and> frame n h h')"
proof -
  from assms obtain ys where inv: "hosts < length h" "h ! hosts = OList xs"
    "\<forall>a \<in> set xs. a < length h" "n < length h" "n \<noteq> hosts" "h ! n = OList ys"
    by (auto simp: loop_inv_def)
  let ?host = "xs ! i"
  from inv(3) assms(2) have host: "?host < length h" by simp
  have step: "loop_step fmt hosts n i h = loop_body fmt n ?host h"
    using inv assms(2) by (simp add: loop_step_def deref_def)
  show ?thesis
  proof (cases "h ! ?host")
    case (OStr s)
    let ?h' = "(h @ [ODict [(''host'', ?host)]])[n := OList (ys @ [length h])]"
    have "loop_body fmt n ?host h = Continue ?h'"
      using OStr host inv by (simp add: loop_body_def deref_def list_append_def nth_append)
    moreover have "loop_inv hosts xs n ?h'"
      using inv by (auto simp: loop_inv_def nth_append nth_list_update less_Suc_eq)
    moreover have "frame n h ?h'"
      by (auto simp: frame_def nth_append nth_list_update)
    ultimately show ?thesis using step by simp
  next
    case (ODict d)
    let ?h' = "h[n := OList (ys @ [?host])]"
    have "loop_body fmt n ?host h = Continue ?h'"
      using ODict host inv by (simp add: loop_body_def deref_def list_append_def)
    moreover have "loop_inv hosts xs n ?h'"
      using inv by (auto simp: loop_inv_def nth_list_update)
    moreover have "frame n h ?h'"
      by (auto simp: frame_def nth_list_update)
    ultimately show ?thesis using step by simp
  next
    case (OList zs)
    then show ?thesis using step host by (simp add: loop_body_def deref_def)
  next
    case (OOther t)
    then show ?thesis using step host by (simp add: loop_body_def deref_def)
  qed
qed

lemma normalize_hosts_loop_frame:
  assumes "loop_inv hosts xs n h"
  shows "\<exists>res h'. normalize_hosts_loop fmt hosts n i h = Some (res, h') \<and> frame n h h'"
  using assms
proof (induction "length xs - i" arbitrary: i h)
  case 0
  then have "\<not> i < length xs" by simp
  with "0.prems" have "loop_step fmt hosts n i h = Finished"
    by (rule loop_step_finished)
  then show ?case
    by (subst normalize_hosts_loop.simps) (simp add: frame_refl)
next
  case (Suc k)
  then have i: "i < length xs" by simp
  from loop_step_continue [OF Suc.prems i, of fmt]
  show ?case
  proof
    assume "\<exists>e. loop_step fmt hosts n i h = Raise e"
    then show ?thesis
      by (subst normalize_hosts_loop.simps) (auto simp: frame_refl)
  next
    assume "\<exists>h'. loop_step fmt hosts n i h = Continue h' \<and> loop_inv hosts xs n h' \<and> frame n h h'"
    then obtain h1 where s: "loop_step fmt hosts n i h = Continue h1"
      and inv1: "loop_inv hosts xs n h1" and fr: "frame n h h1" by blast
    from Suc.hyps(2) have "k = length xs - Suc i" by simp
    from Suc.hyps(1) [OF this inv1]
    obtain res h2 where r: "normalize_hosts_loop fmt hosts n (Suc i) h1 = Some (res, h2)"
      and fr2: "frame n h1 h2" by blast
    from s r have "normalize_hosts_loop fmt hosts n i h = Some (res, h2)"
      by (subst normalize_hosts_loop.simps) simp
    with frame_trans [OF fr fr2] show ?thesis by blast
  qed
qed

lemma normalize_hosts_heap_frame:
  assumes "hosts < length h" and "h ! hosts = OList xs" and "\<forall>a \<in> set xs. a < length h"
  shows "\<exists>res h'. normalize_hosts_heap fmt hosts h = Some (res, h')
           \<and> length h \<le> length h' \<and> (\<forall>a < length h. h' ! a = h ! a)"
proof -
  let ?h0 = "h @ [OList []]"
  have "loop_inv hosts xs (length h) ?h0"
    using assms by (auto simp: loop_inv_def nth_append)
  from normalize_hosts_loop_frame [OF this, of fmt 0]
  obtain res h' where r: "normalize_hosts_loop fmt hosts (length h) 0 ?h0 = Some (res, h')"
    and fr: "frame (length h) ?h0 h'" by blast
  from fr have "length h \<le> length h'" and "\<forall>a < length h. h' ! a = h ! a"
    by (auto simp: frame_def nth_append)
  with r show ?thesis by (auto simp: normalize_hosts_heap_def)
qed

text \<open>
  Claim C8. For a list object \<^verbatim>\<open>hosts\<close> whose elements are in the store,
  \<^verbatim>\<open>normalize_hosts\<close> ends (with a list or with an exception), and afterwards every
  object that existed before the call is what it was: the list \<^verbatim>\<open>hosts\<close> has the same
  elements in the same order, and the elements themselves are unchanged.
\<close>

theorem normalize_hosts_keeps_input:
  assumes "hosts < length h" and "h ! hosts = OList xs" and "\<forall>a \<in> set xs. a < length h"
  shows "\<exists>res h'. normalize_hosts_heap fmt hosts h = Some (res, h')
           \<and> length h \<le> length h' \<and> (\<forall>a < length h. h' ! a = h ! a)
           \<and> h' ! hosts = OList xs"
proof -
  from normalize_hosts_heap_frame [OF assms, of fmt]
  obtain res h' where r: "normalize_hosts_heap fmt hosts h = Some (res, h')"
    and len: "length h \<le> length h'" and same: "\<forall>a < length h. h' ! a = h ! a"
    by blast
  from same assms(1,2) have "h' ! hosts = OList xs" by simp
  with r len same show ?thesis by blast
qed

theorem normalize_hosts_keeps_input_witness:
  "\<exists>res h'. normalize_hosts_heap (\<lambda>h a. ''?'') 3
       [OStr ''web1'', ODict [(''host'', 0)], OOther ''NoneType'', OList [0, 1, 0]] = Some (res, h')
     \<and> length [OStr ''web1'', ODict [(''host'', 0)], OOther ''NoneType'', OList [0, 1, 0]]
           \<le> length h'
     \<and> (\<forall>a < length [OStr ''web1'', ODict [(''host'', 0)], OOther ''NoneType'', OList [0, 1, 0]].
           h' ! a =
           [OStr ''web1'', ODict [(''host'', 0)], OOther ''NoneType'', OList [0, 1, 0]] ! a)
     \<and> h' ! 3 = OList [0, 1, 0]"
proof -
  let ?h = "[OStr ''web1'', ODict [(''host'', 0)], OOther ''NoneType'', OList [0, 1, 0]]"
  have 1: "3 < length ?h" by simp
  have 2: "?h ! 3 = OList [0, 1, 0]" by simp
  have 3: "\<forall>a \<in> set [0, 1, 0 :: nat]. a < length ?h" by simp
  from normalize_hosts_keeps_input [OF 1 2 3, of "\<lambda>h a. ''?''"]
  show ?thesis .
qed

lemma normalize_hosts_heap_example:
  "normalize_hosts_heap (\<lambda>h a. ''?'') 3
     [OStr ''web1'', ODict [(''host'', 0)], OOther ''NoneType'', OList [0, 1, 0]] =
   Some (Inr 4,
     [OStr ''web1'', ODict [(''host'', 0)], OOther ''NoneType'', OList [0, 1, 0],
      OList [5, 1, 6], ODict [(''host'', 0)], ODict [(''host'', 0)]])"
  by code_simp

text \<open>
  The list that \<^verbatim>\<open>normalize_hosts\<close> returns, on the store. The element for a
  dictionary of the input is that dictionary object itself; the element for a string is a
  dictionary object made during the call, whose only entry holds the string object.
  \<open>elem_ok\<close> relates an element of the input to the element made for it.
\<close>

definition elem_ok :: "nat \<Rightarrow> heap \<Rightarrow> nat \<Rightarrow> nat \<Rightarrow> bool" where
  "elem_ok l0 h a b =
     (a < length h \<and> b < length h \<and>
      (case h ! a of
         OStr s \<Rightarrow> l0 < b \<and> h ! b = ODict [(''host'', a)]
       | ODict d \<Rightarrow> b = a
       | _ \<Rightarrow> False))"

definition result_inv :: "nat \<Rightarrow> nat list \<Rightarrow> nat \<Rightarrow> nat \<Rightarrow> heap \<Rightarrow> bool" where
  "result_inv l0 xs n i h =
     (l0 \<le> n \<and> (\<exists>ys. h ! n = OList ys \<and> length ys = i \<and> i \<le> length xs
        \<and> (\<forall>j < i. elem_ok l0 h (xs ! j) (ys ! j))))"

lemma elem_ok_frame:
  assumes "elem_ok l0 h a b" "frame n h h'" "n < length h" "\<exists>ys. h ! n = OList ys"
  shows "elem_ok l0 h' a b"
proof -
  from assms(1) have a: "a < length h" and b: "b < length h" by (simp_all add: elem_ok_def)
  from assms(1,4) have an: "a \<noteq> n" by (auto simp: elem_ok_def split: obj.splits)
  from assms(1,4) have bn: "b \<noteq> n" by (auto simp: elem_ok_def split: obj.splits)
  from assms(2) a an have "h' ! a = h ! a" by (simp add: frame_def)
  moreover from assms(2) b bn have "h' ! b = h ! b" by (simp add: frame_def)
  moreover from assms(2) have "length h \<le> length h'" by (simp add: frame_def)
  ultimately show ?thesis using assms(1)
    by (auto simp: elem_ok_def split: obj.splits)
qed

lemma loop_step_result:
  assumes inv: "loop_inv hosts xs n h" and i: "i < length xs"
    and r: "result_inv l0 xs n i h"
    and s: "loop_step fmt hosts n i h = Continue h'"
  shows "result_inv l0 xs n (Suc i) h'"
proof -
  from inv obtain ys0 where w: "hosts < length h" "h ! hosts = OList xs"
    "\<forall>a \<in> set xs. a < length h" "n < length h" "n \<noteq> hosts" "h ! n = OList ys0"
    by (auto simp: loop_inv_def)
  from r w(6) have l0: "l0 \<le> n" and len: "length ys0 = i"
    and ok: "\<forall>j < i. elem_ok l0 h (xs ! j) (ys0 ! j)"
    by (auto simp: result_inv_def)
  let ?host = "xs ! i"
  from w(3) i have host: "?host < length h" by simp
  have step: "loop_step fmt hosts n i h = loop_body fmt n ?host h"
    using w i by (simp add: loop_step_def deref_def)
  from loop_step_continue [OF inv i, of fmt] s
  have fr: "frame n h h'" and inv': "loop_inv hosts xs n h'" by auto
  have old: "\<forall>j < i. elem_ok l0 h' (xs ! j) (ys0 ! j)"
    using ok fr w(4,6) by (blast intro: elem_ok_frame)
  show ?thesis
  proof (cases "h ! ?host")
    case (OStr t)
    let ?h' = "(h @ [ODict [(''host'', ?host)]])[n := OList (ys0 @ [length h])]"
    have "loop_body fmt n ?host h = Continue ?h'"
      using OStr host w by (simp add: loop_body_def deref_def list_append_def nth_append)
    with s step have h': "h' = ?h'" by simp
    have hn: "?host \<noteq> n" using OStr w(6) by auto
    have new: "elem_ok l0 h' ?host (length h)"
      using OStr host hn w(4) l0 unfolding h'
      by (simp add: elem_ok_def nth_append nth_list_update)
    have "h' ! n = OList (ys0 @ [length h])"
      using w(4) unfolding h' by (simp add: nth_list_update)
    moreover have "\<forall>j < Suc i. elem_ok l0 h' (xs ! j) ((ys0 @ [length h]) ! j)"
      using old new len by (auto simp: less_Suc_eq nth_append)
    ultimately show ?thesis using l0 len i by (auto simp: result_inv_def)
  next
    case (ODict d)
    let ?h' = "h[n := OList (ys0 @ [?host])]"
    have "loop_body fmt n ?host h = Continue ?h'"
      using ODict host w by (simp add: loop_body_def deref_def list_append_def)
    with s step have h': "h' = ?h'" by simp
    have hn: "?host \<noteq> n" using ODict w(6) by auto
    have new: "elem_ok l0 h' ?host ?host"
      using ODict host hn unfolding h'
      by (simp add: elem_ok_def nth_list_update)
    have "h' ! n = OList (ys0 @ [?host])"
      using w(4) unfolding h' by (simp add: nth_list_update)
    moreover have "\<forall>j < Suc i. elem_ok l0 h' (xs ! j) ((ys0 @ [?host]) ! j)"
      using old new len by (auto simp: less_Suc_eq nth_append)
    ultimately show ?thesis using l0 len i by (auto simp: result_inv_def)
  next
    case (OList zs)
    then show ?thesis using step host s by (simp add: loop_body_def deref_def)
  next
    case (OOther t)
    then show ?thesis using step host s by (simp add: loop_body_def deref_def)
  qed
qed

lemma normalize_hosts_loop_result:
  assumes "loop_inv hosts xs n h" "result_inv l0 xs n i h"
    and "normalize_hosts_loop fmt hosts n i h = Some (Inr r, h')"
  shows "r = n \<and> result_inv l0 xs n (length xs) h'"
  using assms
proof (induction "length xs - i" arbitrary: i h)
  case 0
  from "0.prems"(2) have "i \<le> length xs" by (auto simp: result_inv_def)
  with "0.hyps" have i: "i = length xs" by simp
  then have "loop_step fmt hosts n i h = Finished"
    using "0.prems"(1) by (simp add: loop_step_finished)
  with "0.prems"(3) have "r = n" "h' = h"
    by (subst (asm) normalize_hosts_loop.simps, simp)+
  with "0.prems"(2) i show ?case by simp
next
  case (Suc k)
  then have i: "i < length xs" by simp
  from loop_step_continue [OF Suc.prems(1) i, of fmt]
  show ?case
  proof
    assume "\<exists>e. loop_step fmt hosts n i h = Raise e"
    with Suc.prems(3) show ?thesis
      by (subst (asm) normalize_hosts_loop.simps) auto
  next
    assume "\<exists>h'. loop_step fmt hosts n i h = Continue h' \<and> loop_inv hosts xs n h' \<and> frame n h h'"
    then obtain h1 where s: "loop_step fmt hosts n i h = Continue h1"
      and inv1: "loop_inv hosts xs n h1" by blast
    from loop_step_result [OF Suc.prems(1) i Suc.prems(2) s]
    have r1: "result_inv l0 xs n (Suc i) h1" .
    from s Suc.prems(3) have run: "normalize_hosts_loop fmt hosts n (Suc i) h1 = Some (Inr r, h')"
      by (subst (asm) normalize_hosts_loop.simps) simp
    from Suc.hyps(2) have "k = length xs - Suc i" by simp
    from Suc.hyps(1) [OF this inv1 r1 run] show ?thesis .
  qed
qed

text \<open>
  When the call returns, the result is a new list object with one element for each
  element of the input, in the input's order.
\<close>

lemma normalize_hosts_heap_result:
  assumes "hosts < length h" and "h ! hosts = OList xs" and "\<forall>a \<in> set xs. a < length h"
    and "normalize_hosts_heap fmt hosts h = Some (Inr r, h')"
  shows "\<exists>ys. r = length h \<and> h' ! r = OList ys \<and> length ys = length xs
           \<and> (\<forall>j < length xs.
                 (\<forall>s. h ! (xs ! j) = OStr s \<longrightarrow>
                    length h < ys ! j \<and> h' ! (ys ! j) = ODict [(''host'', xs ! j)])
               \<and> (\<forall>d. h ! (xs ! j) = ODict d \<longrightarrow> ys ! j = xs ! j))"
proof -
  let ?h0 = "h @ [OList []]"
  have inv: "loop_inv hosts xs (length h) ?h0"
    using assms(1-3) by (auto simp: loop_inv_def nth_append)
  have ri: "result_inv (length h) xs (length h) 0 ?h0"
    by (simp add: result_inv_def)
  from assms(4) have run: "normalize_hosts_loop fmt hosts (length h) 0 ?h0 = Some (Inr r, h')"
    by (simp add: normalize_hosts_heap_def)
  from normalize_hosts_loop_result [OF inv ri run]
  have r: "r = length h" and res: "result_inv (length h) xs (length h) (length xs) h'"
    by simp_all
  from res obtain ys where ys: "h' ! length h = OList ys" "length ys = length xs"
    and ok: "\<forall>j < length xs. elem_ok (length h) h' (xs ! j) (ys ! j)"
    by (auto simp: result_inv_def)
  from normalize_hosts_heap_frame [OF assms(1-3), of fmt] assms(4)
  have same: "\<forall>a < length h. h' ! a = h ! a" by auto
  have "\<forall>j < length xs.
          (\<forall>s. h ! (xs ! j) = OStr s \<longrightarrow>
             length h < ys ! j \<and> h' ! (ys ! j) = ODict [(''host'', xs ! j)])
        \<and> (\<forall>d. h ! (xs ! j) = ODict d \<longrightarrow> ys ! j = xs ! j)"
  proof (intro allI impI)
    fix j assume j: "j < length xs"
    with assms(3) have "xs ! j < length h" by simp
    with same have eq: "h' ! (xs ! j) = h ! (xs ! j)" by simp
    from ok j have "elem_ok (length h) h' (xs ! j) (ys ! j)" by simp
    with eq show "(\<forall>s. h ! (xs ! j) = OStr s \<longrightarrow>
             length h < ys ! j \<and> h' ! (ys ! j) = ODict [(''host'', xs ! j)])
        \<and> (\<forall>d. h ! (xs ! j) = ODict d \<longrightarrow> ys ! j = xs ! j)"
      by (auto simp: elem_ok_def)
  qed
  with r ys show ?thesis by blast
qed

end
